theory Spec2Isabelle
  imports Main "HOL-Library.Sublist"
begin

section \<open>Python strings\<close>

text \<open>
  Python's \<open>str\<close> is a sequence of code points. A text that the script reads (the
  credential file, the visible text of an element, a link) is modelled as a \<open>string\<close>,
  whose characters are the code points 0 to 255, and the string methods are written
  out for all of them. The letters with two cases in that range are the ASCII letters
  and the Latin-1 letters \<open>0xC0\<close> to \<open>0xDE\<close> (capitals, without the sign \<open>0xD7\<close>) and
  \<open>0xE0\<close> to \<open>0xFE\<close> (small, without the sign \<open>0xF7\<close>).
\<close>

definition ascii_uppercase :: string where
  "ascii_uppercase = ''ABCDEFGHIJKLMNOPQRSTUVWXYZ''"

definition ascii_lowercase :: string where
  "ascii_lowercase = ''abcdefghijklmnopqrstuvwxyz''"

definition latin1_uppercase :: string where
  "latin1_uppercase =
    [CHR 0xC0, CHR 0xC1, CHR 0xC2, CHR 0xC3, CHR 0xC4, CHR 0xC5, CHR 0xC6, CHR 0xC7,
     CHR 0xC8, CHR 0xC9, CHR 0xCA, CHR 0xCB, CHR 0xCC, CHR 0xCD, CHR 0xCE, CHR 0xCF,
     CHR 0xD0, CHR 0xD1, CHR 0xD2, CHR 0xD3, CHR 0xD4, CHR 0xD5, CHR 0xD6, CHR 0xD8,
     CHR 0xD9, CHR 0xDA, CHR 0xDB, CHR 0xDC, CHR 0xDD, CHR 0xDE]"

definition latin1_lowercase :: string where
  "latin1_lowercase =
    [CHR 0xE0, CHR 0xE1, CHR 0xE2, CHR 0xE3, CHR 0xE4, CHR 0xE5, CHR 0xE6, CHR 0xE7,
     CHR 0xE8, CHR 0xE9, CHR 0xEA, CHR 0xEB, CHR 0xEC, CHR 0xED, CHR 0xEE, CHR 0xEF,
     CHR 0xF0, CHR 0xF1, CHR 0xF2, CHR 0xF3, CHR 0xF4, CHR 0xF5, CHR 0xF6, CHR 0xF8,
     CHR 0xF9, CHR 0xFA, CHR 0xFB, CHR 0xFC, CHR 0xFD, CHR 0xFE]"

definition to_lower :: "char \<Rightarrow> char" where
  "to_lower c =
     (case map_of (zip (ascii_uppercase @ latin1_uppercase)
                       (ascii_lowercase @ latin1_lowercase)) c of
        None \<Rightarrow> c | Some l \<Rightarrow> l)"

definition to_upper :: "char \<Rightarrow> char" where
  "to_upper c =
     (case map_of (zip (ascii_lowercase @ latin1_lowercase)
                       (ascii_uppercase @ latin1_uppercase)) c of
        None \<Rightarrow> c | Some u \<Rightarrow> u)"

text \<open>\<open>s.lower()\<close>: every capital is replaced by its small letter.\<close>

definition str_lower :: "string \<Rightarrow> string" where
  "str_lower s = map to_lower s"

text \<open>
  \<open>s.title()\<close> goes through the characters: one that follows a cased character is
  lowered, any other is replaced by its title case, and a character is cased when it is
  a letter with a case. Besides the letters above, \<open>0xAA\<close>, \<open>0xB5\<close>, \<open>0xBA\<close>, \<open>0xDF\<close>
  and \<open>0xFF\<close> are cased. The title case of \<open>0xDF\<close> is the two letters \<open>Ss\<close>, and the
  title case of \<open>0xB5\<close> and of \<open>0xFF\<close> lies above 255 (\<open>0x39C\<close> and \<open>0x178\<close>): the
  result of \<open>title\<close> is therefore a list of code points.
\<close>

type_synonym code_points = "nat list"

definition code_points :: "string \<Rightarrow> code_points" where
  "code_points s = map of_char s"

definition is_cased :: "char \<Rightarrow> bool" where
  "is_cased c =
     (c \<in> set (ascii_uppercase @ ascii_lowercase @ latin1_uppercase @ latin1_lowercase
               @ [CHR 0xAA, CHR 0xB5, CHR 0xBA, CHR 0xDF, CHR 0xFF]))"

definition to_title :: "char \<Rightarrow> code_points" where
  "to_title c =
     (if c = CHR 0xB5 then [0x39C]
      else if c = CHR 0xDF then [0x53, 0x73]
      else if c = CHR 0xFF then [0x178]
      else [of_char (to_upper c)])"

fun title_from :: "bool \<Rightarrow> string \<Rightarrow> code_points" where
  "title_from previous_is_cased [] = []"
| "title_from previous_is_cased (c # cs) =
     (if previous_is_cased then [of_char (to_lower c)] else to_title c)
       @ title_from (is_cased c) cs"

definition str_title :: "string \<Rightarrow> code_points" where
  "str_title s = title_from False s"

text \<open>
  Title case said position by position: the character at \<open>i\<close> is lowered when the one
  before it is cased, and is put in title case otherwise.
\<close>

definition title_case :: "string \<Rightarrow> code_points" where
  "title_case s =
     concat (map (\<lambda>i. if 0 < i \<and> is_cased (s ! (i - 1))
                        then [of_char (to_lower (s ! i))] else to_title (s ! i))
                 [0..<length s])"

text \<open>
  \<open>s.strip()\<close>: white space is removed from both ends. The characters up to 255 for
  which \<open>str.isspace\<close> holds are 9 to 13, 28 to 32, \<open>0x85\<close> and \<open>0xA0\<close>.
\<close>

definition is_space :: "char \<Rightarrow> bool" where
  "is_space c = (c \<in> set [CHR 0x09, CHR 0x0A, CHR 0x0B, CHR 0x0C, CHR 0x0D,
                           CHR 0x1C, CHR 0x1D, CHR 0x1E, CHR 0x1F, CHR 0x20,
                           CHR 0x85, CHR 0xA0])"

definition str_strip :: "string \<Rightarrow> string" where
  "str_strip s = rev (dropWhile is_space (rev (dropWhile is_space s)))"

text \<open>\<open>sub in s\<close>: some position of \<open>s\<close> starts with \<open>sub\<close>.\<close>

fun str_contains :: "string \<Rightarrow> string \<Rightarrow> bool" where
  "str_contains sub [] = (sub = [])"
| "str_contains sub (c # cs) = (prefix sub (c # cs) \<or> str_contains sub cs)"

text \<open>\<open>s.find(sub)\<close>: the lowest index where \<open>sub\<close> starts, or \<open>-1\<close>.\<close>

fun str_find :: "string \<Rightarrow> string \<Rightarrow> int" where
  "str_find sub [] = (if sub = [] then 0 else - 1)"
| "str_find sub (c # cs) =
     (if prefix sub (c # cs) then 0
      else (let r = str_find sub cs in if r < 0 then - 1 else r + 1))"

text \<open>\<open>s.rfind(sub)\<close>: the highest index where \<open>sub\<close> starts, or \<open>-1\<close>.\<close>

fun str_rfind :: "string \<Rightarrow> string \<Rightarrow> int" where
  "str_rfind sub [] = (if sub = [] then 0 else - 1)"
| "str_rfind sub (c # cs) =
     (let r = str_rfind sub cs in
      if 0 \<le> r then r + 1
      else if prefix sub (c # cs) then 0 else - 1)"

text \<open>
  \<open>s[start:end]\<close>: a negative bound counts from the end, and both bounds are
  clipped to the string, so a slice never raises.
\<close>

definition slice_bound :: "nat \<Rightarrow> int \<Rightarrow> nat" where
  "slice_bound n i = (if i < 0 then nat (max 0 (i + int n)) else min (nat i) n)"

definition slice :: "string \<Rightarrow> int \<Rightarrow> int \<Rightarrow> string" where
  "slice s start end =
     drop (slice_bound (length s) start) (take (slice_bound (length s) end) s)"

section \<open>Errors\<close>

datatype error =
    AssertionError string
  | ValueError
  | AttributeError
  | NoSuchElementException
  | UnexpectedTagNameException string
  | WebDriverException string

section \<open>Link corrector\<close>

definition correct_link :: "string \<Rightarrow> error + string" where
  "correct_link link_url =
     (if str_contains ''javascript:OpenWinNEU'' link_url then
        (if \<not> str_contains ''http://'' link_url \<and> \<not> str_contains ''https://'' link_url
         then Inl (WebDriverException
                ''This is javascript that does not have a url. There is nothing I can do'')
         else
           (let start = str_find ''('' link_url + 2;
                end = str_rfind '')'' link_url - 1
            in Inr (slice link_url start end)))
      else Inr link_url)"

section \<open>The browser session\<close>

text \<open>
  The script sees a page only through the driver's queries. A page is modelled as the
  tree of its elements; each element carries its tag, its \<open>id\<close>, its class names and
  the visible text that the driver reports for it (\<open>element.text\<close>).
\<close>

datatype element =
  Element (tag_name: string) (id_attr: string) (class_names: "string list")
          (el_text: string) (children: "element list")

text \<open>The elements below an element, in document order.\<close>

fun descendants :: "element \<Rightarrow> element list" where
  "descendants (Element t i cs x ch) = concat (map (\<lambda>c. c # descendants c) ch)"

definition find_elements_by_tag_name :: "element \<Rightarrow> string \<Rightarrow> element list" where
  "find_elements_by_tag_name e name = filter (\<lambda>x. tag_name x = name) (descendants e)"

definition find_elements_by_class_name :: "element \<Rightarrow> string \<Rightarrow> element list" where
  "find_elements_by_class_name e name =
     filter (\<lambda>x. name \<in> set (class_names x)) (descendants e)"

text \<open>The singular queries return the first match and raise when there is none.\<close>

definition first_element :: "element list \<Rightarrow> error + element" where
  "first_element es = (case es of [] \<Rightarrow> Inl NoSuchElementException | e # _ \<Rightarrow> Inr e)"

definition find_element_by_id :: "element \<Rightarrow> string \<Rightarrow> error + element" where
  "find_element_by_id e name = first_element (filter (\<lambda>x. id_attr x = name) (descendants e))"

definition find_element_by_class_name :: "element \<Rightarrow> string \<Rightarrow> error + element" where
  "find_element_by_class_name e name = first_element (find_elements_by_class_name e name)"

text \<open>
  The driver holds the title of the current page and its document; a query on the driver
  is the query on the document node, whose descendants are all elements of the page.
\<close>

record driver =
  title :: string
  document :: element

section \<open>Credential loader\<close>

text \<open>
  The file system maps the path of each existing file to its text. A file opened in text
  mode is read with universal newlines: \<open>\r\n\<close> and \<open>\r\<close> arrive as \<open>\n\<close>.
\<close>

type_synonym filesystem = "string \<rightharpoonup> string"

fun universal_newlines :: "string \<Rightarrow> string" where
  "universal_newlines [] = []"
| "universal_newlines [c] = [if c = CHR 0x0D then CHR 0x0A else c]"
| "universal_newlines (c # d # cs) =
     (if c = CHR 0x0D \<and> d = CHR 0x0A then CHR 0x0A # universal_newlines cs
      else if c = CHR 0x0D then CHR 0x0A # universal_newlines (d # cs)
      else c # universal_newlines (d # cs))"

text \<open>\<open>readlines\<close>: the lines of the text, each with its line end.\<close>

fun split_lines :: "string \<Rightarrow> string list" where
  "split_lines [] = []"
| "split_lines (c # cs) =
     (if c = CHR 0x0A then [c] # split_lines cs
      else (case split_lines cs of
              [] \<Rightarrow> [[c]]
            | l # ls \<Rightarrow> (c # l) # ls))"

definition readlines :: "string \<Rightarrow> string list" where
  "readlines data = split_lines (universal_newlines data)"

definition get_login_credentials :: "filesystem \<Rightarrow> string \<Rightarrow> error + string \<times> string" where
  "get_login_credentials fs file_name =
     (case fs file_name of
        None \<Rightarrow> Inl (AssertionError (file_name @ '' does not exist!''))
      | Some data \<Rightarrow>
          (case readlines data of
             [username, password] \<Rightarrow> Inr (str_strip username, str_strip password)
           | _ \<Rightarrow> Inl ValueError))"

section \<open>Page navigator\<close>

text \<open>
  The loop of \<open>get_self_service_page\<close> over the tabs that are not active: each tab's
  inner \<open>tab\<close> element is looked up (which raises when the tab has none) and its text
  is compared with the literal; the \<open>else\<close> branch of the loop raises.
\<close>

fun find_self_service_tag :: "element list \<Rightarrow> error + element" where
  "find_self_service_tag [] =
     Inl (UnexpectedTagNameException ''Couldn't find Self-Service Tag'')"
| "find_self_service_tag (tag # tags) =
     (case find_element_by_id tag ''tab'' of
        Inl e \<Rightarrow> Inl e
      | Inr self_service_tag \<Rightarrow>
          if el_text self_service_tag = ''Self-Service'' then Inr self_service_tag
          else find_self_service_tag tags)"

text \<open>
  \<open>get_self_service_page\<close> ends by clicking the element it found; what the browser does
  on the click is outside the script, so the result is the element that is clicked.
\<close>

definition get_self_service_page :: "driver \<Rightarrow> error + element" where
  "get_self_service_page d =
     (case find_element_by_id (document d) ''tabs_tda'' of
        Inl e \<Rightarrow> Inl e
      | Inr tabs \<Rightarrow> find_self_service_tag (find_elements_by_class_name tabs ''taboff''))"

text \<open>The loop of \<open>find_link\<close>; falling off its end returns \<open>None\<close>.\<close>

fun first_link :: "string \<Rightarrow> element list \<Rightarrow> element option" where
  "first_link link_name [] = None"
| "first_link link_name (link # links) =
     (if str_lower (el_text link) = link_name then Some link
      else first_link link_name links)"

definition find_link :: "driver \<Rightarrow> string \<Rightarrow> element option" where
  "find_link d link_name =
     first_link (str_lower link_name) (find_elements_by_tag_name (document d) ''a'')"

section \<open>Sections of the self-service tab\<close>

text \<open>
  A dictionary is a map. A dictionary comprehension stores its pairs in order, so a
  later pair with the same key replaces an earlier one. The keys of the section
  dictionary are labels and title-cased labels, hence lists of code points.
\<close>

definition dict_of :: "('k \<times> 'v) list \<Rightarrow> ('k \<rightharpoonup> 'v)" where
  "dict_of kvs = fold (\<lambda>(k, v) m. m(k \<mapsto> v)) kvs Map.empty"

definition get_self_service_sections :: "driver \<Rightarrow> error + (code_points \<rightharpoonup> element)" where
  "get_self_service_sections d =
     (case find_element_by_class_name (document d) ''uportal-background-content'' of
        Inl e \<Rightarrow> Inl e
      | Inr page_table \<Rightarrow>
     (case find_element_by_class_name page_table ''uportal-background-content'' of
        Inl e \<Rightarrow> Inl e
      | Inr page_tr \<Rightarrow>
          (let sections1 = dict_of (map (\<lambda>element. (code_points (el_text element), element))
                             (find_elements_by_class_name page_tr ''uportal-head14-bold''));
               sections2 = dict_of (map (\<lambda>element. (str_title (el_text element), element))
                             (find_elements_by_class_name page_tr ''Taupe''))
           in Inr (sections1 ++ sections2))))"

section \<open>Table scraper\<close>

text \<open>
  \<open>grouper\<close> hands the same iterator \<open>n\<close> times to \<open>zip_longest\<close>: each round takes the
  next \<open>n\<close> items into one tuple, the last round is filled up with \<open>fillvalue\<close>, and a
  round that finds the iterator empty at its start ends the result. With \<open>n = 0\<close> there
  is nothing to zip and the result is empty.
\<close>

function grouper :: "'a list \<Rightarrow> nat \<Rightarrow> 'a \<Rightarrow> 'a list list" where
  "grouper iterable n fillvalue =
     (if n = 0 \<or> iterable = [] then []
      else (take n iterable @ replicate (n - length iterable) fillvalue)
             # grouper (drop n iterable) n fillvalue)"
  by pat_completeness auto
termination
  by (relation "measure (\<lambda>(iterable, n, fillvalue). length iterable)") auto

declare grouper.simps [simp del]

text \<open>
  The cells handed to \<open>grouper\<close> are elements, its fill value is \<open>None\<close>: an item of a
  tuple is an \<open>element option\<close>, and reading \<open>.text\<close> of \<open>None\<close> raises.
\<close>

definition text_of :: "element option \<Rightarrow> error + string" where
  "text_of x = (case x of None \<Rightarrow> Inl AttributeError | Some e \<Rightarrow> Inr (el_text e))"

text \<open>
  The comprehension \<open>{k.text: v.text for k, v in ...}\<close>: each tuple is unpacked into two
  names, the key's text is read before the value's.
\<close>

fun dict_comprehension ::
  "element option list list \<Rightarrow> (string \<rightharpoonup> string) \<Rightarrow> error + (string \<rightharpoonup> string)" where
  "dict_comprehension [] acc = Inr acc"
| "dict_comprehension (t # ts) acc =
     (case t of
        [k, v] \<Rightarrow>
          (case text_of k of
             Inl e \<Rightarrow> Inl e
           | Inr key \<Rightarrow>
               (case text_of v of
                  Inl e \<Rightarrow> Inl e
                | Inr val \<Rightarrow> dict_comprehension ts (acc(key \<mapsto> val))))
      | _ \<Rightarrow> Inl ValueError)"

text \<open>The inner loop over the tables of one block.\<close>

fun update_from_tables ::
  "element list \<Rightarrow> (string \<rightharpoonup> string) \<Rightarrow> error + (string \<rightharpoonup> string)" where
  "update_from_tables [] contents = Inr contents"
| "update_from_tables (element2 # rest) contents =
     (case dict_comprehension
             (grouper (map Some (find_elements_by_class_name element2 ''Content'')) 2 None)
             Map.empty of
        Inl e \<Rightarrow> Inl e
      | Inr new \<Rightarrow> update_from_tables rest (contents ++ new))"

text \<open>The outer loop over the blocks of the page.\<close>

fun update_from_blocks ::
  "element list \<Rightarrow> (string \<rightharpoonup> string) \<Rightarrow> error + (string \<rightharpoonup> string)" where
  "update_from_blocks [] contents = Inr contents"
| "update_from_blocks (element1 # rest) contents =
     (if find_elements_by_class_name element1 ''Title'' \<noteq> [] then
        (case update_from_tables (find_elements_by_tag_name element1 ''table'') contents of
           Inl e \<Rightarrow> Inl e
         | Inr contents' \<Rightarrow> update_from_blocks rest contents')
      else update_from_blocks rest contents)"

definition get_balance_data :: "driver \<Rightarrow> error + (string \<rightharpoonup> string)" where
  "get_balance_data d =
     update_from_blocks (find_elements_by_tag_name (document d) ''blockquote'') Map.empty"

definition get_dining_dollars :: "driver \<Rightarrow> error + string option" where
  "get_dining_dollars d =
     (if title d \<noteq> ''myNEU: View HuskyCard Balances'' then
        Inl (AssertionError ''You need to be on the Husky Account Balance Page!'')
      else
        (case get_balance_data d of
           Inl e \<Rightarrow> Inl e
         | Inr data \<Rightarrow> Inr (data ''Spring 15 Meal Plan'')))"

section \<open>Example pages\<close>

text \<open>
  Small pages with the layout the script expects, used to run the functions: a row of
  tabs (each tab a cell of class \<open>tabon\<close> or \<open>taboff\<close> around an inner element with the
  id \<open>tab\<close>), a table of section heads, a page of links, and a balance page with one
  titled block holding one table of content cells.
\<close>

definition tab :: "string \<Rightarrow> string \<Rightarrow> element" where
  "tab cls label = Element ''td'' [] [cls] label [Element ''a'' ''tab'' [] label []]"

definition tabs_page :: "element list \<Rightarrow> driver" where
  "tabs_page tabs = \<lparr>title = ''myNEU'',
     document = Element ''#document'' [] [] []
       [Element ''html'' [] [] [] [Element ''tr'' ''tabs_tda'' [] [] tabs]]\<rparr>"

definition section_head :: "string \<Rightarrow> string \<Rightarrow> element" where
  "section_head cls label = Element ''span'' [] [cls] label []"

definition sections_page :: "element list \<Rightarrow> driver" where
  "sections_page heads = \<lparr>title = ''myNEU'',
     document = Element ''#document'' [] [] []
       [Element ''table'' [] [''uportal-background-content''] []
          [Element ''tr'' [] [''uportal-background-content''] [] heads]]\<rparr>"

definition links_page :: "string list \<Rightarrow> driver" where
  "links_page labels = \<lparr>title = ''myNEU'',
     document = Element ''#document'' [] [] []
       [Element ''body'' [] [] [] (map (\<lambda>l. Element ''a'' [] [] l []) labels)]\<rparr>"

definition balance_page :: "string \<Rightarrow> string list \<Rightarrow> driver" where
  "balance_page page_title cells = \<lparr>title = page_title,
     document = Element ''#document'' [] [] []
       [Element ''blockquote'' [] [] []
          [Element ''span'' [] [''Title''] ''Balances'' [],
           Element ''table'' [] [] []
             (map (\<lambda>c. Element ''td'' [] [''Content''] c []) cells)]]\<rparr>"

lemmas page_defs = find_element_by_id_def find_elements_by_class_name_def
  first_element_def find_elements_by_tag_name_def find_element_by_class_name_def

lemmas lower_defs = str_lower_def to_lower_def ascii_uppercase_def ascii_lowercase_def
  latin1_uppercase_def latin1_lowercase_def

lemmas title_defs = str_title_def to_title_def to_upper_def to_lower_def is_cased_def
  ascii_uppercase_def ascii_lowercase_def latin1_uppercase_def latin1_lowercase_def
  code_points_def

section \<open>Properties of the link corrector\<close>

lemma str_contains_sublist: "str_contains sub s \<longleftrightarrow> sublist sub s"
  by (induction s) (auto simp: sublist_Cons_right)

lemma str_find_first: "c \<notin> set pre \<Longrightarrow> str_find [c] (pre @ c # rest) = int (length pre)"
  by (induction pre) (auto simp: Let_def)

lemma str_rfind_absent: "c \<notin> set post \<Longrightarrow> str_rfind [c] post = - 1"
  by (induction post) (auto simp: Let_def)

lemma str_rfind_last: "c \<notin> set post \<Longrightarrow> str_rfind [c] (xs @ c # post) = int (length xs)"
  by (induction xs) (auto simp: Let_def str_rfind_absent)

lemma slice_nat: "slice s (int a) (int b) = drop a (take b s)"
proof -
  have d: "drop (min a (length s)) xs = drop a xs" if "length xs \<le> length s" for xs :: string
    using that by (cases "a \<le> length s") (simp_all add: min_def)
  have t: "take (min b (length s)) s = take b s"
    by (cases "b \<le> length s") (simp_all add: min_def)
  show ?thesis
    by (simp add: slice_def slice_bound_def t d del: drop_take)
qed

lemma take_drop_inner:
  "drop (length pre + 2) (take (length pre + length inner) (pre @ c # inner @ rest))
     = butlast (tl inner)"
proof (cases inner rule: rev_cases)
  case Nil
  then show ?thesis by simp
next
  case (snoc ys y)
  then show ?thesis by (cases ys) simp_all
qed

lemma slice_inner:
  "slice (pre @ c # inner @ rest) (int (length pre) + 2)
         (int (length pre) + 1 + int (length inner) - 1)
     = butlast (tl inner)"
proof -
  have "slice (pre @ c # inner @ rest) (int (length pre + 2)) (int (length pre + length inner))
     = butlast (tl inner)"
    unfolding slice_nat by (rule take_drop_inner)
  then show ?thesis by (simp add: add.commute)
qed

lemma str_find_lower_bound: "- 1 \<le> str_find sub s"
  by (induction s) (auto simp: Let_def)

lemma slice_shorter:
  assumes "1 \<le> start" and "s \<noteq> []"
  shows "length (slice s start end) < length s"
proof -
  from assms have "1 \<le> slice_bound (length s) start"
    by (cases s) (auto simp: slice_bound_def min_def)
  then show ?thesis
    using assms(2) by (cases s) (auto simp: slice_def)
qed

lemma str_contains_nonempty: "str_contains (c # sub) s \<Longrightarrow> s \<noteq> []"
  by (cases s) auto

lemma correct_link_changes_marked:
  assumes "str_contains ''javascript:OpenWinNEU'' link_url"
  shows "correct_link link_url \<noteq> Inr link_url"
proof
  assume eq: "correct_link link_url = Inr link_url"
  from assms have ne: "link_url \<noteq> []" by (rule str_contains_nonempty)
  have "1 \<le> str_find ''('' link_url + 2"
    using str_find_lower_bound [of "''(''" link_url] by simp
  then have "length (slice link_url (str_find ''('' link_url + 2) (str_rfind '')'' link_url - 1))
               < length link_url"
    using ne by (rule slice_shorter)
  moreover from eq assms
  have "slice link_url (str_find ''('' link_url + 2) (str_rfind '')'' link_url - 1) = link_url"
    by (simp add: correct_link_def Let_def split: if_splits)
  ultimately show False by simp
qed

text \<open>
  Claim C3. Let the link contain the marker \<open>javascript:OpenWinNEU\<close> and an absolute
  URL (\<open>http://\<close> or \<open>https://\<close>), and let \<open>inner\<close> be the substring between its first
  opening parenthesis and its last closing parenthesis: the link is
  \<open>pre @ ''('' @ inner @ '')'' @ post\<close> with no opening parenthesis in \<open>pre\<close> and no closing
  one in \<open>post\<close>. Then \<open>correct_link\<close> returns \<open>inner\<close> without its first and its last
  character, the two quotes of a quoted payload. The example of the claim,
  \<open>javascript:OpenWinNEU('http://example.com/page')\<close>, is the witness.
\<close>

theorem correct_link_extracts_payload:
  assumes "str_contains ''javascript:OpenWinNEU'' link_url"
    and "str_contains ''http://'' link_url \<or> str_contains ''https://'' link_url"
    and "link_url = pre @ ''('' @ inner @ '')'' @ post"
    and "CHR ''('' \<notin> set pre" and "CHR '')'' \<notin> set post"
  shows "correct_link link_url = Inr (butlast (tl inner))"
proof -
  have f: "str_find ''('' link_url = int (length pre)"
    using assms(3,4) str_find_first [of "CHR ''(''" pre "inner @ '')'' @ post"] by simp
  have r: "str_rfind '')'' link_url = int (length pre) + 1 + int (length inner)"
    using assms(3,5) str_rfind_last [of "CHR '')''" post "pre @ ''('' @ inner"] by simp
  have "slice link_url (str_find ''('' link_url + 2) (str_rfind '')'' link_url - 1)
          = butlast (tl inner)"
    unfolding f r using slice_inner [of pre "CHR ''(''" inner "'')'' @ post"] assms(3) by simp
  then show ?thesis
    using assms(1,2) unfolding correct_link_def Let_def by (simp split: if_splits)
qed

theorem correct_link_extracts_payload_witness:
  "correct_link ''javascript:OpenWinNEU('http://example.com/page')''
     = Inr ''http://example.com/page''"
proof -
  let ?s = "''javascript:OpenWinNEU('http://example.com/page')''"
  have h1: "str_contains ''javascript:OpenWinNEU'' ?s" by simp
  have h2: "str_contains ''http://'' ?s \<or> str_contains ''https://'' ?s" by simp
  have h3: "?s = ''javascript:OpenWinNEU'' @ ''(''
                   @ ([CHR 0x27] @ ''http://example.com/page'' @ [CHR 0x27]) @ '')'' @ []"
    by simp
  have h4: "CHR ''('' \<notin> set ''javascript:OpenWinNEU''" by simp
  have h5: "CHR '')'' \<notin> set []" by simp
  show ?thesis
    using correct_link_extracts_payload [OF h1 h2 h3 h4 h5] by simp
qed

text \<open>
  Claim C4, as amended. \<open>correct_link\<close> returns its input unchanged exactly when the
  marker \<open>javascript:OpenWinNEU\<close> occurs nowhere in it. The test of the code is one of
  containment, not of a prefix: a link that has the marker at any place is refused or
  cut shorter. The witness is the plain URL \<open>http://example.com/page\<close>.
\<close>

theorem correct_link_identity_without_marker:
  "correct_link link_url = Inr link_url \<longleftrightarrow> \<not> str_contains ''javascript:OpenWinNEU'' link_url"
proof
  assume "correct_link link_url = Inr link_url"
  then show "\<not> str_contains ''javascript:OpenWinNEU'' link_url"
    using correct_link_changes_marked by blast
next
  assume "\<not> str_contains ''javascript:OpenWinNEU'' link_url"
  then show "correct_link link_url = Inr link_url"
    by (simp add: correct_link_def)
qed

theorem correct_link_identity_without_marker_witness:
  "\<not> str_contains ''javascript:OpenWinNEU'' ''http://example.com/page'' \<and>
   correct_link ''http://example.com/page'' = Inr ''http://example.com/page''"
proof -
  have h: "\<not> str_contains ''javascript:OpenWinNEU'' ''http://example.com/page''" by simp
  show ?thesis
    using h correct_link_identity_without_marker [of "''http://example.com/page''"] by blast
qed

text \<open>
  A plain URL that does not start with the marker but has it further on, here in its
  path, is not returned unchanged: it has no parentheses, so \<open>find\<close> and \<open>rfind\<close>
  return \<open>-1\<close> and the slice \<open>[1:-2]\<close> drops its first and its last two characters.
\<close>

theorem correct_link_prefix_counterexample:
  "\<not> prefix ''javascript:OpenWinNEU'' ''http://example.com/javascript:OpenWinNEU'' \<and>
   correct_link ''http://example.com/javascript:OpenWinNEU''
     = Inr ''ttp://example.com/javascript:OpenWinN'' \<and>
   correct_link ''http://example.com/javascript:OpenWinNEU''
     \<noteq> Inr ''http://example.com/javascript:OpenWinNEU''"
  by (simp add: correct_link_def slice_def slice_bound_def)

text \<open>
  Claim C5, as amended. \<open>correct_link\<close> raises its \<open>WebDriverException\<close> exactly for
  the links that contain the marker and in which neither \<open>http://\<close> nor \<open>https://\<close>
  occurs anywhere, inside the parentheses or outside them. The witness is
  \<open>javascript:OpenWinNEU('notaurl')\<close>.
\<close>

theorem correct_link_raises_without_url:
  "correct_link link_url = Inl (WebDriverException
       ''This is javascript that does not have a url. There is nothing I can do'')
   \<longleftrightarrow> str_contains ''javascript:OpenWinNEU'' link_url \<and>
       \<not> str_contains ''http://'' link_url \<and> \<not> str_contains ''https://'' link_url"
  unfolding correct_link_def Let_def by (simp split: if_splits)

theorem correct_link_raises_without_url_witness:
  "correct_link ''javascript:OpenWinNEU('notaurl')'' = Inl (WebDriverException
           ''This is javascript that does not have a url. There is nothing I can do'')"
proof -
  let ?s = "''javascript:OpenWinNEU('notaurl')''"
  have h1: "str_contains ''javascript:OpenWinNEU'' ?s" by simp
  have h2: "\<not> str_contains ''http://'' ?s" by simp
  have h3: "\<not> str_contains ''https://'' ?s" by simp
  show ?thesis
    using h1 h2 h3 correct_link_raises_without_url [of ?s] by blast
qed

text \<open>
  The test for an absolute URL looks at the whole link, not at the wrapped payload: when
  \<open>http://\<close> stands before the wrapper and the payload \<open>'notaurl'\<close> has no URL, nothing is
  raised and the payload is returned.
\<close>

theorem correct_link_payload_counterexample:
  "''http://x/javascript:OpenWinNEU('notaurl')''
     = ''http://x/'' @ ''javascript:OpenWinNEU('' @ ([CHR 0x27] @ ''notaurl'' @ [CHR 0x27]) @ '')'' \<and>
   \<not> str_contains ''http://'' ([CHR 0x27] @ ''notaurl'' @ [CHR 0x27]) \<and>
   \<not> str_contains ''https://'' ([CHR 0x27] @ ''notaurl'' @ [CHR 0x27]) \<and>
   correct_link ''http://x/javascript:OpenWinNEU('notaurl')'' = Inr ''notaurl''"
  by (simp add: correct_link_def slice_def slice_bound_def)

text \<open>
  Claim C10, as amended. When \<open>correct_link\<close> returns a result, applying it to that
  result returns the result unchanged exactly when the marker \<open>javascript:OpenWinNEU\<close>
  does not occur in the result: a result without the marker is a fixed point, and a
  result that still has the marker is either refused or cut shorter. The witness is the
  wrapped link of claim C3 and its URL.
\<close>

theorem correct_link_idempotent_unwrapped:
  assumes "correct_link link_url = Inr result"
  shows "correct_link result = Inr result \<longleftrightarrow> \<not> str_contains ''javascript:OpenWinNEU'' result"
proof
  assume "correct_link result = Inr result"
  then show "\<not> str_contains ''javascript:OpenWinNEU'' result"
    using correct_link_changes_marked by blast
next
  assume "\<not> str_contains ''javascript:OpenWinNEU'' result"
  then show "correct_link result = Inr result"
    by (simp add: correct_link_def)
qed

theorem correct_link_idempotent_unwrapped_witness:
  "correct_link ''javascript:OpenWinNEU('http://example.com/page')'' = Inr ''http://example.com/page'' \<and>
   \<not> str_contains ''javascript:OpenWinNEU'' ''http://example.com/page'' \<and>
   correct_link ''http://example.com/page'' = Inr ''http://example.com/page''"
proof -
  have h1: "correct_link ''javascript:OpenWinNEU('http://example.com/page')''
              = Inr ''http://example.com/page''"
    by (simp add: correct_link_def slice_def slice_bound_def)
  have h2: "\<not> str_contains ''javascript:OpenWinNEU'' ''http://example.com/page''" by simp
  show ?thesis
    using h1 h2 correct_link_idempotent_unwrapped [OF h1] by simp
qed

text \<open>
  Only one wrapper is removed by a call: the result of a wrapper around a wrapper is
  the inner wrapper, which a second call changes again.
\<close>

theorem correct_link_nested_counterexample:
  "correct_link ''javascript:OpenWinNEU('javascript:OpenWinNEU('http://a')')''
     = Inr ''javascript:OpenWinNEU('http://a')'' \<and>
   correct_link ''javascript:OpenWinNEU('http://a')'' = Inr ''http://a'' \<and>
   correct_link ''javascript:OpenWinNEU('http://a')'' \<noteq> Inr ''javascript:OpenWinNEU('http://a')''"
  by (simp add: correct_link_def slice_def slice_bound_def)

section \<open>Properties of the credential loader\<close>

lemma split_lines_line:
  "CHR 0x0A \<notin> set l \<Longrightarrow>
     split_lines (l @ CHR 0x0A # rest) = (l @ [CHR 0x0A]) # split_lines rest"
  by (induction l) auto

lemma split_lines_last:
  "CHR 0x0A \<notin> set l \<Longrightarrow> l \<noteq> [] \<Longrightarrow> split_lines l = [l]"
proof (induction l)
  case Nil
  then show ?case by simp
next
  case (Cons c cs)
  then show ?case by (cases cs) auto
qed

lemma is_space_newline: "is_space (CHR 0x0A)"
  by (simp add: is_space_def)

lemma str_strip_newline: "str_strip (l @ [CHR 0x0A]) = str_strip l"
proof (cases "\<forall>c\<in>set l. is_space c")
  case True
  then have a: "dropWhile is_space l = []" by simp
  from True have b: "dropWhile is_space (l @ [CHR 0x0A]) = []"
    by (simp add: dropWhile_append2 is_space_newline)
  show ?thesis
    unfolding str_strip_def a b by simp
next
  case False
  then obtain c where "c \<in> set l" "\<not> is_space c" by blast
  then have "dropWhile is_space (l @ [CHR 0x0A]) = dropWhile is_space l @ [CHR 0x0A]"
    by (rule dropWhile_append1)
  then show ?thesis
    by (simp add: str_strip_def is_space_newline)
qed

lemma rev_dropWhile_takeWhile:
  "xs = rev (dropWhile P (rev xs)) @ rev (takeWhile P (rev xs))"
proof -
  have "rev xs = takeWhile P (rev xs) @ dropWhile P (rev xs)"
    by (simp only: takeWhile_dropWhile_id)
  then have "rev (rev xs) = rev (takeWhile P (rev xs) @ dropWhile P (rev xs))"
    by (rule arg_cong)
  then show ?thesis
    by (simp only: rev_rev_ident rev_append)
qed

lemma str_strip_split:
  "dropWhile is_space s
     = str_strip s @ rev (takeWhile is_space (rev (dropWhile is_space s)))"
  unfolding str_strip_def by (rule rev_dropWhile_takeWhile)

lemma str_strip_spec:
  "\<exists>a b. s = a @ str_strip s @ b \<and> (\<forall>c\<in>set a. is_space c) \<and> (\<forall>c\<in>set b. is_space c)"
proof -
  let ?rest = "dropWhile is_space s"
  let ?b = "rev (takeWhile is_space (rev ?rest))"
  have "s = takeWhile is_space s @ ?rest"
    by (simp only: takeWhile_dropWhile_id)
  then have 1: "s = takeWhile is_space s @ str_strip s @ ?b"
    using str_strip_split [of s] by simp
  have 3: "\<forall>c\<in>set (takeWhile is_space s). is_space c"
    by (auto dest: set_takeWhileD)
  have 4: "\<forall>c\<in>set ?b. is_space c"
    by (auto dest: set_takeWhileD)
  from 1 3 4 show ?thesis by blast
qed

lemma str_strip_ends:
  "str_strip s = [] \<or> \<not> is_space (hd (str_strip s)) \<and> \<not> is_space (last (str_strip s))"
proof (cases "str_strip s = []")
  case True
  then show ?thesis by simp
next
  case False
  let ?rest = "dropWhile is_space s"
  let ?d = "dropWhile is_space (rev ?rest)"
  from False have d: "?d \<noteq> []" by (simp add: str_strip_def)
  then have l: "\<not> is_space (hd ?d)" by (rule hd_dropWhile)
  have last: "last (str_strip s) = hd ?d"
    using d by (simp add: str_strip_def last_rev)
  have r: "?rest \<noteq> []"
  proof
    assume "?rest = []"
    then have "?d = []" by (simp only: rev.simps dropWhile.simps)
    with d show False ..
  qed
  then have h: "\<not> is_space (hd ?rest)" by (rule hd_dropWhile)
  from False str_strip_split [of s] have "hd ?rest = hd (str_strip s)"
    by (metis hd_append2)
  with h l last show ?thesis by simp
qed

lemma dropWhile_keeps:
  "xs \<noteq> [] \<Longrightarrow> \<not> P (hd xs) \<Longrightarrow> dropWhile P xs = xs"
  by (cases xs) simp_all

lemma stripped_unique:
  assumes "line = a @ u @ b"
    and "\<forall>c\<in>set a. is_space c" and "\<forall>c\<in>set b. is_space c"
    and "u = [] \<or> \<not> is_space (hd u) \<and> \<not> is_space (last u)"
  shows "str_strip line = u"
proof (cases "u = []")
  case True
  with assms(1-3) have "\<forall>c\<in>set line. is_space c" by auto
  then have d: "dropWhile is_space line = []" by simp
  show ?thesis
    unfolding str_strip_def d using True by simp
next
  case False
  with assms(4) have h: "\<not> is_space (hd u)" and l: "\<not> is_space (last u)" by simp_all
  from False h have "dropWhile is_space (u @ b) = u @ b"
    by (simp add: dropWhile_keeps)
  with assms(1,2) have 1: "dropWhile is_space line = u @ b"
    by (simp add: dropWhile_append2)
  from False l have "dropWhile is_space (rev u) = rev u"
    by (simp add: dropWhile_keeps hd_rev)
  moreover from assms(3) have "dropWhile is_space (rev b @ rev u) = dropWhile is_space (rev u)"
    by (intro dropWhile_append2) simp
  ultimately have "dropWhile is_space (rev (u @ b)) = rev u"
    by simp
  with 1 show ?thesis by (simp add: str_strip_def)
qed

text \<open>
  Claim C6. For a path with no file, \<open>get_login_credentials\<close> fails with the assertion
  error of its precondition. For a file of exactly two lines (its text, once the line
  ends are read, is \<open>line1\<close>, a newline, \<open>line2\<close> and either a final newline or, when
  \<open>line2\<close> is not empty, nothing) it returns a pair \<open>(username, password)\<close> in which
  \<open>username\<close> is \<open>line1\<close> without the white space around it: \<open>line1\<close> is \<open>username\<close>
  between two runs of white space, and \<open>username\<close> neither starts nor ends with white
  space; \<open>password\<close> is \<open>line2\<close> in the same way. By \<open>stripped_unique\<close> this fixes both
  components. The witness is the file \<open>alice\npassword1\n\<close>, which gives
  \<open>(alice, password1)\<close>, a file whose first line has every kind of white space that a
  line can hold on both sides of \<open>alice\<close>, and a path that is missing.
\<close>

theorem get_login_credentials_two_lines:
  "(fs file_name = None \<longrightarrow>
      get_login_credentials fs file_name
        = Inl (AssertionError (file_name @ '' does not exist!''))) \<and>
   (fs file_name = Some data \<and>
    universal_newlines data = line1 @ [CHR 0x0A] @ line2 @ line_end \<and>
    CHR 0x0A \<notin> set line1 \<and> CHR 0x0A \<notin> set line2 \<and>
    (line_end = [CHR 0x0A] \<or> line_end = [] \<and> line2 \<noteq> []) \<longrightarrow>
      (\<exists>username password.
         get_login_credentials fs file_name = Inr (username, password) \<and>
         (\<exists>a b. line1 = a @ username @ b \<and>
                (\<forall>c\<in>set a. is_space c) \<and> (\<forall>c\<in>set b. is_space c)) \<and>
         (username = [] \<or> \<not> is_space (hd username) \<and> \<not> is_space (last username)) \<and>
         (\<exists>a b. line2 = a @ password @ b \<and>
                (\<forall>c\<in>set a. is_space c) \<and> (\<forall>c\<in>set b. is_space c)) \<and>
         (password = [] \<or> \<not> is_space (hd password) \<and> \<not> is_space (last password))))"
proof (intro conjI impI)
  assume "fs file_name = None"
  then show "get_login_credentials fs file_name
               = Inl (AssertionError (file_name @ '' does not exist!''))"
    by (simp add: get_login_credentials_def)
next
  assume a: "fs file_name = Some data \<and>
    universal_newlines data = line1 @ [CHR 0x0A] @ line2 @ line_end \<and>
    CHR 0x0A \<notin> set line1 \<and> CHR 0x0A \<notin> set line2 \<and>
    (line_end = [CHR 0x0A] \<or> line_end = [] \<and> line2 \<noteq> [])"
  then have n1: "CHR 0x0A \<notin> set line1" and n2: "CHR 0x0A \<notin> set line2" by simp_all
  have "readlines data = (line1 @ [CHR 0x0A]) # split_lines (line2 @ line_end)"
    using a split_lines_line [OF n1] by (simp add: readlines_def)
  moreover have "split_lines (line2 @ line_end) = [line2 @ line_end]"
    using a split_lines_line [OF n2, of "[]"] split_lines_last [OF n2] by auto
  ultimately have "readlines data = [line1 @ [CHR 0x0A], line2 @ line_end]" by simp
  moreover have "str_strip (line2 @ line_end) = str_strip line2"
    using a str_strip_newline by auto
  ultimately have r: "get_login_credentials fs file_name
                        = Inr (str_strip line1, str_strip line2)"
    using a by (simp add: get_login_credentials_def str_strip_newline)
  show "\<exists>username password.
         get_login_credentials fs file_name = Inr (username, password) \<and>
         (\<exists>a b. line1 = a @ username @ b \<and>
                (\<forall>c\<in>set a. is_space c) \<and> (\<forall>c\<in>set b. is_space c)) \<and>
         (username = [] \<or> \<not> is_space (hd username) \<and> \<not> is_space (last username)) \<and>
         (\<exists>a b. line2 = a @ password @ b \<and>
                (\<forall>c\<in>set a. is_space c) \<and> (\<forall>c\<in>set b. is_space c)) \<and>
         (password = [] \<or> \<not> is_space (hd password) \<and> \<not> is_space (last password))"
    using r str_strip_spec [of line1] str_strip_ends [of line1]
      str_strip_spec [of line2] str_strip_ends [of line2]
    by (intro exI [of _ "str_strip line1"] exI [of _ "str_strip line2"]) simp
qed

theorem get_login_credentials_two_lines_witness:
  "get_login_credentials
     [''creds.txt'' \<mapsto> ''alice'' @ [CHR 0x0A] @ ''password1'' @ [CHR 0x0A]] ''creds.txt''
     = Inr (''alice'', ''password1'') \<and>
   get_login_credentials
     [''creds.txt'' \<mapsto> [CHR 0x09, CHR 0x0B, CHR 0x0C, CHR 0x1C, CHR 0x1D] @ ''alice''
                        @ [CHR 0x1E, CHR 0x1F, CHR 0x20, CHR 0x85, CHR 0xA0, CHR 0x0D, CHR 0x0A]
                        @ '' pass word ''] ''creds.txt''
     = Inr (''alice'', ''pass word'') \<and>
   get_login_credentials
     [''creds.txt'' \<mapsto> ''alice'' @ [CHR 0x0A] @ ''password1'' @ [CHR 0x0A]] ''missing.txt''
     = Inl (AssertionError ''missing.txt does not exist!'')"
proof -
  let ?plain = "''alice'' @ [CHR 0x0A] @ ''password1'' @ [CHR 0x0A]"
  let ?l1 = "[CHR 0x09, CHR 0x0B, CHR 0x0C, CHR 0x1C, CHR 0x1D] @ ''alice''
               @ [CHR 0x1E, CHR 0x1F, CHR 0x20, CHR 0x85, CHR 0xA0]"
  let ?blanks = "[CHR 0x09, CHR 0x0B, CHR 0x0C, CHR 0x1C, CHR 0x1D] @ ''alice''
                   @ [CHR 0x1E, CHR 0x1F, CHR 0x20, CHR 0x85, CHR 0xA0, CHR 0x0D, CHR 0x0A]
                   @ '' pass word ''"
  have s1: "str_strip ''alice'' = ''alice''" and s2: "str_strip ''password1'' = ''password1''"
    and s3: "str_strip ?l1 = ''alice''" and s4: "str_strip '' pass word '' = ''pass word''"
    by (simp_all add: str_strip_def is_space_def)
  have h: "[''creds.txt'' \<mapsto> ?plain] ''creds.txt'' = Some ?plain \<and>
    universal_newlines ?plain = ''alice'' @ [CHR 0x0A] @ ''password1'' @ [CHR 0x0A] \<and>
    CHR 0x0A \<notin> set ''alice'' \<and> CHR 0x0A \<notin> set ''password1'' \<and>
    ([CHR 0x0A] = [CHR 0x0A] \<or> [CHR 0x0A] = [] \<and> ''password1'' \<noteq> [])"
    by simp
  have k: "[''creds.txt'' \<mapsto> ?blanks] ''creds.txt'' = Some ?blanks \<and>
    universal_newlines ?blanks = ?l1 @ [CHR 0x0A] @ '' pass word '' @ [] \<and>
    CHR 0x0A \<notin> set ?l1 \<and> CHR 0x0A \<notin> set '' pass word '' \<and>
    ([] = [CHR 0x0A] \<or> [] = [] \<and> '' pass word '' \<noteq> [])"
    by simp
  have m: "[''creds.txt'' \<mapsto> ?plain] ''missing.txt'' = None" by simp
  from get_login_credentials_two_lines
         [of "[''creds.txt'' \<mapsto> ?plain]" "''creds.txt''" ?plain "''alice''" "''password1''"
             "[CHR 0x0A]"] h
  obtain u p where r1: "get_login_credentials [''creds.txt'' \<mapsto> ?plain] ''creds.txt'' = Inr (u, p)"
    and u1: "u = str_strip ''alice''" and p1: "p = str_strip ''password1''"
    using stripped_unique [THEN sym] by blast
  have 1: "get_login_credentials [''creds.txt'' \<mapsto> ?plain] ''creds.txt''
                  = Inr (''alice'', ''password1'')"
    by (simp only: r1 u1 p1 s1 s2)
  from get_login_credentials_two_lines
         [of "[''creds.txt'' \<mapsto> ?blanks]" "''creds.txt''" ?blanks ?l1 "'' pass word ''" "[]"] k
  obtain u p where r2: "get_login_credentials [''creds.txt'' \<mapsto> ?blanks] ''creds.txt'' = Inr (u, p)"
    and u2: "u = str_strip ?l1" and p2: "p = str_strip '' pass word ''"
    using stripped_unique [THEN sym] by blast
  have 2: "get_login_credentials [''creds.txt'' \<mapsto> ?blanks] ''creds.txt''
                  = Inr (''alice'', ''pass word'')"
    by (simp only: r2 u2 p2 s3 s4)
  from get_login_credentials_two_lines [of "[''creds.txt'' \<mapsto> ?plain]" "''missing.txt''"] m
  have 3: "get_login_credentials [''creds.txt'' \<mapsto> ?plain] ''missing.txt''
          = Inl (AssertionError (''missing.txt'' @ '' does not exist!''))"
    by blast
  from 1 2 3 show ?thesis by simp
qed

section \<open>Properties of the page navigator\<close>

lemma find_self_service_tag_first:
  assumes "tags = pre @ t # post"
    and "\<forall>p\<in>set pre. \<exists>e'. find_element_by_id p ''tab'' = Inr e' \<and> el_text e' \<noteq> ''Self-Service''"
    and "find_element_by_id t ''tab'' = Inr e" and "el_text e = ''Self-Service''"
  shows "find_self_service_tag tags = Inr e"
  using assms by (induction pre arbitrary: tags) auto

lemma find_self_service_tag_found:
  assumes "find_self_service_tag tags = Inr e"
  shows "\<exists>pre t post. tags = pre @ t # post \<and>
           (\<forall>p\<in>set pre. \<exists>e'. find_element_by_id p ''tab'' = Inr e' \<and> el_text e' \<noteq> ''Self-Service'') \<and>
           find_element_by_id t ''tab'' = Inr e \<and> el_text e = ''Self-Service''"
  using assms
proof (induction tags)
  case Nil
  then show ?case by simp
next
  case (Cons tag tags)
  show ?case
  proof (cases "find_element_by_id tag ''tab''")
    case (Inl err)
    with Cons.prems show ?thesis by simp
  next
    case (Inr inner)
    show ?thesis
    proof (cases "el_text inner = ''Self-Service''")
      case True
      with Inr Cons.prems have "inner = e" by simp
      with Inr True have "tag # tags = [] @ tag # tags \<and>
           (\<forall>p\<in>set []. \<exists>e'. find_element_by_id p ''tab'' = Inr e' \<and> el_text e' \<noteq> ''Self-Service'') \<and>
           find_element_by_id tag ''tab'' = Inr e \<and> el_text e = ''Self-Service''"
        by simp
      then show ?thesis by blast
    next
      case False
      with Inr Cons.prems have "find_self_service_tag tags = Inr e" by simp
      from Cons.IH [OF this] obtain pre t post where
        p: "tags = pre @ t # post"
           "\<forall>p\<in>set pre. \<exists>e'. find_element_by_id p ''tab'' = Inr e' \<and> el_text e' \<noteq> ''Self-Service''"
           "find_element_by_id t ''tab'' = Inr e" "el_text e = ''Self-Service''"
        by blast
      from p Inr False have "tag # tags = (tag # pre) @ t # post \<and>
           (\<forall>p\<in>set (tag # pre). \<exists>e'. find_element_by_id p ''tab'' = Inr e' \<and> el_text e' \<noteq> ''Self-Service'') \<and>
           find_element_by_id t ''tab'' = Inr e \<and> el_text e = ''Self-Service''"
        by simp
      then show ?thesis by blast
    qed
  qed
qed

lemma find_self_service_tag_none:
  assumes "\<forall>p\<in>set tags. \<exists>e'. find_element_by_id p ''tab'' = Inr e' \<and> el_text e' \<noteq> ''Self-Service''"
  shows "find_self_service_tag tags = Inl (UnexpectedTagNameException ''Couldn't find Self-Service Tag'')"
  using assms by (induction tags) auto

text \<open>
  Claim C1, as amended. When the page has the tab container, \<open>get_self_service_page\<close>
  clicks an element \<open>e\<close> exactly when \<open>e\<close> is the inner \<open>tab\<close> element of the first
  tab of class \<open>taboff\<close> whose text is exactly \<open>Self-Service\<close>, every earlier such tab
  having an inner element with another text. The comparison is the equality of strings,
  so a tab with the text \<open>self-service\<close> or \<open>SELF-SERVICE\<close> is passed over. In the
  witness the tab \<open>Self-Service\<close> is clicked, not the active tab, not \<open>Community\<close> and
  not the later \<open>self-service\<close>.
\<close>

theorem get_self_service_page_exact_match:
  assumes "find_element_by_id (document d) ''tabs_tda'' = Inr tabs"
  shows "get_self_service_page d = Inr e \<longleftrightarrow>
           (\<exists>pre t post. find_elements_by_class_name tabs ''taboff'' = pre @ t # post \<and>
              (\<forall>p\<in>set pre. \<exists>e'. find_element_by_id p ''tab'' = Inr e' \<and> el_text e' \<noteq> ''Self-Service'') \<and>
              find_element_by_id t ''tab'' = Inr e \<and> el_text e = ''Self-Service'')"
proof
  assume "get_self_service_page d = Inr e"
  with assms have "find_self_service_tag (find_elements_by_class_name tabs ''taboff'') = Inr e"
    by (simp add: get_self_service_page_def)
  then show "\<exists>pre t post. find_elements_by_class_name tabs ''taboff'' = pre @ t # post \<and>
              (\<forall>p\<in>set pre. \<exists>e'. find_element_by_id p ''tab'' = Inr e' \<and> el_text e' \<noteq> ''Self-Service'') \<and>
              find_element_by_id t ''tab'' = Inr e \<and> el_text e = ''Self-Service''"
    by (rule find_self_service_tag_found)
next
  assume "\<exists>pre t post. find_elements_by_class_name tabs ''taboff'' = pre @ t # post \<and>
              (\<forall>p\<in>set pre. \<exists>e'. find_element_by_id p ''tab'' = Inr e' \<and> el_text e' \<noteq> ''Self-Service'') \<and>
              find_element_by_id t ''tab'' = Inr e \<and> el_text e = ''Self-Service''"
  then have "find_self_service_tag (find_elements_by_class_name tabs ''taboff'') = Inr e"
    using find_self_service_tag_first by blast
  with assms show "get_self_service_page d = Inr e"
    by (simp add: get_self_service_page_def)
qed

theorem get_self_service_page_exact_match_witness:
  "get_self_service_page
     (tabs_page [tab ''tabon'' ''myNEU Central'', tab ''taboff'' ''Community'',
                 tab ''taboff'' ''Self-Service'', tab ''taboff'' ''self-service''])
     = Inr (Element ''a'' ''tab'' [] ''Self-Service'' [])"
proof -
  let ?tabs = "[tab ''tabon'' ''myNEU Central'', tab ''taboff'' ''Community'',
                 tab ''taboff'' ''Self-Service'', tab ''taboff'' ''self-service'']"
  let ?e = "Element ''a'' ''tab'' [] ''Self-Service'' []"
  have h: "find_element_by_id (document (tabs_page ?tabs)) ''tabs_tda''
             = Inr (Element ''tr'' ''tabs_tda'' [] [] ?tabs)"
    by (simp add: tabs_page_def tab_def page_defs)
  have s: "find_elements_by_class_name (Element ''tr'' ''tabs_tda'' [] [] ?tabs) ''taboff''
             = [tab ''taboff'' ''Community''] @ tab ''taboff'' ''Self-Service''
                 # [tab ''taboff'' ''self-service'']"
    by (simp add: tabs_page_def tab_def page_defs)
  have p: "\<forall>p\<in>set [tab ''taboff'' ''Community''].
             \<exists>e'. find_element_by_id p ''tab'' = Inr e' \<and> el_text e' \<noteq> ''Self-Service''"
    by (simp add: tabs_page_def tab_def page_defs)
  have t: "find_element_by_id (tab ''taboff'' ''Self-Service'') ''tab'' = Inr ?e \<and>
           el_text ?e = ''Self-Service''"
    by (simp add: tabs_page_def tab_def page_defs)
  from s p t have "\<exists>pre t post.
      find_elements_by_class_name (Element ''tr'' ''tabs_tda'' [] [] ?tabs) ''taboff'' = pre @ t # post \<and>
      (\<forall>p\<in>set pre. \<exists>e'. find_element_by_id p ''tab'' = Inr e' \<and> el_text e' \<noteq> ''Self-Service'') \<and>
      find_element_by_id t ''tab'' = Inr ?e \<and> el_text ?e = ''Self-Service''"
    by blast
  then show ?thesis
    using get_self_service_page_exact_match [OF h, of ?e] by blast
qed

text \<open>
  A page whose only tab that is not active reads \<open>self-service\<close>: the text equals
  \<open>Self-Service\<close> once both are lowered, yet the tab is not clicked and the function
  raises \<open>UnexpectedTagNameException\<close>.
\<close>

theorem get_self_service_page_case_counterexample:
  "find_element_by_id (tab ''taboff'' ''self-service'') ''tab''
     = Inr (Element ''a'' ''tab'' [] ''self-service'' []) \<and>
   str_lower ''self-service'' = str_lower ''Self-Service'' \<and>
   get_self_service_page (tabs_page [tab ''tabon'' ''myNEU Central'', tab ''taboff'' ''self-service''])
     = Inl (UnexpectedTagNameException ''Couldn't find Self-Service Tag'')"
  by (simp add: tabs_page_def tab_def page_defs get_self_service_page_def lower_defs)

lemma str_lower_latin1:
  "str_lower [CHR ''C'', CHR ''A'', CHR ''F'', CHR 0xC9] = [CHR ''c'', CHR ''a'', CHR ''f'', CHR 0xE9]"
  by (simp add: lower_defs)

lemma first_link_find:
  "first_link n links = List.find (\<lambda>l. str_lower (el_text l) = n) links"
  by (induction links) auto

lemma first_link_first:
  assumes "links = pre @ l # post" and "\<forall>p\<in>set pre. str_lower (el_text p) \<noteq> n"
    and "str_lower (el_text l) = n"
  shows "first_link n links = Some l"
  using assms by (induction pre arbitrary: links) auto

lemma first_link_none:
  "\<forall>l\<in>set links. str_lower (el_text l) \<noteq> n \<Longrightarrow> first_link n links = None"
  by (induction links) auto

text \<open>
  Claim C8. \<open>find_link\<close> goes through the hyperlinks of the page in document order and
  returns the first whose lowered text equals the lowered name: when the links are
  \<open>pre @ l # post\<close>, no link of \<open>pre\<close> matches and \<open>l\<close> does, the result is \<open>l\<close>. When
  no link matches, the result is \<open>None\<close>; the function has no way to raise.
\<close>

theorem find_link_first_match_or_none:
  "(find_elements_by_tag_name (document d) ''a'' = pre @ l # post \<and>
    (\<forall>p\<in>set pre. str_lower (el_text p) \<noteq> str_lower link_name) \<and>
    str_lower (el_text l) = str_lower link_name
      \<longrightarrow> find_link d link_name = Some l) \<and>
   ((\<forall>a\<in>set (find_elements_by_tag_name (document d) ''a'').
       str_lower (el_text a) \<noteq> str_lower link_name)
      \<longrightarrow> find_link d link_name = None)"
  unfolding find_link_def using first_link_first first_link_none by blast

theorem find_link_first_match_or_none_witness:
  "find_link (links_page [''Home'', ''Husky Card Account Balances'', ''HUSKY CARD ACCOUNT BALANCES''])
     ''husky card account balances'' = Some (Element ''a'' [] [] ''Husky Card Account Balances'' []) \<and>
   find_link (links_page [''Home'', ''Husky Card Account Balances'', ''HUSKY CARD ACCOUNT BALANCES''])
     ''Dining'' = None"
proof -
  let ?d = "links_page [''Home'', ''Husky Card Account Balances'', ''HUSKY CARD ACCOUNT BALANCES'']"
  let ?l = "Element ''a'' [] [] ''Husky Card Account Balances'' []"
  have links: "find_elements_by_tag_name (document ?d) ''a''
     = [Element ''a'' [] [] ''Home'' []] @ ?l # [Element ''a'' [] [] ''HUSKY CARD ACCOUNT BALANCES'' []]"
    by (simp add: links_page_def page_defs)
  have a: "find_elements_by_tag_name (document ?d) ''a''
             = [Element ''a'' [] [] ''Home'' []] @ ?l # [Element ''a'' [] [] ''HUSKY CARD ACCOUNT BALANCES'' []] \<and>
    (\<forall>p\<in>set [Element ''a'' [] [] ''Home'' []]. str_lower (el_text p) \<noteq> str_lower ''husky card account balances'') \<and>
    str_lower (el_text ?l) = str_lower ''husky card account balances''"
    unfolding links by (simp add: lower_defs)
  have b: "\<forall>a\<in>set (find_elements_by_tag_name (document ?d) ''a'').
       str_lower (el_text a) \<noteq> str_lower ''Dining''"
    unfolding links by (simp add: lower_defs)
  from find_link_first_match_or_none [of ?d "[Element ''a'' [] [] ''Home'' []]" ?l
         "[Element ''a'' [] [] ''HUSKY CARD ACCOUNT BALANCES'' []]" "''husky card account balances''"] a
  have "find_link ?d ''husky card account balances'' = Some ?l" by blast
  moreover from find_link_first_match_or_none [of ?d _ _ _ "''Dining''"] b
  have "find_link ?d ''Dining'' = None" by blast
  ultimately show ?thesis by simp
qed

section \<open>Properties of the sections\<close>

lemma fold_update_map_of:
  "fold (\<lambda>(k, v) m. m(k \<mapsto> v)) kvs m = m ++ map_of (rev kvs)"
proof (induction kvs arbitrary: m)
  case Nil
  then show ?case by simp
next
  case (Cons kv kvs)
  obtain k v where kv: "kv = (k, v)" by (cases kv)
  have "fold (\<lambda>(k, v) m. m(k \<mapsto> v)) (kv # kvs) m
          = fold (\<lambda>(k, v) m. m(k \<mapsto> v)) kvs (m(k \<mapsto> v))"
    unfolding kv by simp
  also have "\<dots> = m(k \<mapsto> v) ++ map_of (rev kvs)"
    by (rule Cons.IH)
  also have "\<dots> = m ++ map_of (rev (kv # kvs))"
    unfolding kv by (rule ext) (simp add: map_add_def map_of_append split: option.splits)
  finally show ?case .
qed

lemma dict_of_map_of: "dict_of kvs = map_of (rev kvs)"
  by (simp add: dict_of_def fold_update_map_of)

lemma dict_of_keyed:
  "dict_of (map (\<lambda>e. (f e, e)) es) k =
     (if \<exists>e\<in>set es. f e = k then Some (last (filter (\<lambda>x. f x = k) es)) else None)"
proof (induction es rule: rev_induct)
  case Nil
  then show ?case by (simp add: dict_of_map_of)
next
  case (snoc x xs)
  then show ?case by (auto simp: dict_of_map_of)
qed

lemma title_from_positions:
  "title_from prev s =
     concat (map (\<lambda>i. if (if i = 0 then prev else is_cased (s ! (i - 1)))
                        then [of_char (to_lower (s ! i))] else to_title (s ! i))
                 [0..<length s])"
proof (induction s arbitrary: prev)
  case Nil
  then show ?case by simp
next
  case (Cons c cs)
  have u: "[0..<length (c # cs)] = 0 # map Suc [0..<length cs]"
    by (simp add: upt_conv_Cons map_Suc_upt del: upt_Suc)
  have m: "map (\<lambda>i. if (if i = 0 then prev else is_cased ((c # cs) ! (i - 1)))
                        then [of_char (to_lower ((c # cs) ! i))] else to_title ((c # cs) ! i))
               (map Suc [0..<length cs])
         = map (\<lambda>i. if (if i = 0 then is_cased c else is_cased (cs ! (i - 1)))
                        then [of_char (to_lower (cs ! i))] else to_title (cs ! i))
               [0..<length cs]"
    unfolding map_map by (rule map_cong) (auto simp: nth_Cons')
  show ?case
    unfolding u by (simp only: list.map concat.simps m Cons.IH title_from.simps) simp
qed

lemma str_title_title_case: "str_title s = title_case s"
  unfolding str_title_def title_case_def title_from_positions
  by (rule arg_cong [where f = concat]) (auto intro: map_cong)

lemma title_case_FOO: "title_case ''FOO'' = code_points ''Foo''"
  unfolding str_title_title_case [symmetric] by (simp add: title_defs)

lemma title_case_words:
  "title_case ''HUSKY CARD center'' = code_points ''Husky Card Center''"
  unfolding str_title_title_case [symmetric] by (simp add: title_defs)

lemma title_case_latin1:
  "title_case [CHR 0xC9, CHR ''C'', CHR ''O'', CHR ''L'', CHR ''E'']
     = code_points [CHR 0xC9, CHR ''c'', CHR ''o'', CHR ''l'', CHR ''e'']"
  unfolding str_title_title_case [symmetric] by (simp add: title_defs)

text \<open>
  Claim C7. Let \<open>page_tr\<close> be the row that \<open>get_self_service_sections\<close> reads. For every
  element \<open>e\<close> of the second family (class \<open>Taupe\<close>) the merged mapping has an entry
  under the label of \<open>e\<close> in title case (each character lowered when it follows a cased
  character, put in title case otherwise), and that entry is an element of the second
  family (the last one with this title), whatever the first family holds under the same
  label. In the witness the first family has \<open>Foo\<close>, the second has \<open>FOO\<close>, whose
  title case is \<open>Foo\<close>, and the entry under \<open>Foo\<close> is the element of the second family.
\<close>

theorem sections_second_family_wins:
  assumes "find_element_by_class_name (document d) ''uportal-background-content'' = Inr page_table"
    and "find_element_by_class_name page_table ''uportal-background-content'' = Inr page_tr"
    and "e \<in> set (find_elements_by_class_name page_tr ''Taupe'')"
  shows "\<exists>sections. get_self_service_sections d = Inr sections \<and>
           sections (title_case (el_text e)) =
             Some (last (filter (\<lambda>x. title_case (el_text x) = title_case (el_text e))
                           (find_elements_by_class_name page_tr ''Taupe'')))"
proof -
  let ?s2 = "dict_of (map (\<lambda>element. (str_title (el_text element), element))
                             (find_elements_by_class_name page_tr ''Taupe''))"
  have "?s2 (title_case (el_text e)) =
          Some (last (filter (\<lambda>x. title_case (el_text x) = title_case (el_text e))
                           (find_elements_by_class_name page_tr ''Taupe'')))"
    using assms(3) unfolding dict_of_keyed str_title_title_case by auto
  then show ?thesis
    using assms(1,2) by (simp add: get_self_service_sections_def Let_def map_add_Some_iff)
qed

theorem sections_second_family_wins_witness:
  "title_case ''FOO'' = code_points ''Foo'' \<and>
   (\<exists>sections. get_self_service_sections
       (sections_page [section_head ''uportal-head14-bold'' ''Foo'', section_head ''Taupe'' ''FOO''])
        = Inr sections \<and>
      sections (code_points ''Foo'') = Some (section_head ''Taupe'' ''FOO''))"
proof -
  let ?heads = "[section_head ''uportal-head14-bold'' ''Foo'', section_head ''Taupe'' ''FOO'']"
  let ?tr = "Element ''tr'' [] [''uportal-background-content''] [] ?heads"
  let ?table = "Element ''table'' [] [''uportal-background-content''] [] [?tr]"
  have h1: "find_element_by_class_name (document (sections_page ?heads))
              ''uportal-background-content'' = Inr ?table"
    by (simp add: sections_page_def section_head_def page_defs)
  have h2: "find_element_by_class_name ?table ''uportal-background-content'' = Inr ?tr"
    by (simp add: section_head_def page_defs)
  have t: "find_elements_by_class_name ?tr ''Taupe'' = [section_head ''Taupe'' ''FOO'']"
    by (simp add: section_head_def page_defs)
  have h3: "section_head ''Taupe'' ''FOO'' \<in> set (find_elements_by_class_name ?tr ''Taupe'')"
    unfolding t by simp
  have x: "el_text (section_head ''Taupe'' ''FOO'') = ''FOO''"
    by (simp add: section_head_def)
  show ?thesis
    using sections_second_family_wins [OF h1 h2 h3] unfolding t
    by (simp add: x title_case_FOO)
qed

section \<open>Properties of the table scraper\<close>

lemma grouper_pair:
  "grouper (a # b # rest) 2 fillvalue = [a, b] # grouper rest 2 fillvalue"
  by (subst grouper.simps) simp

lemma grouper_single: "grouper [a] 2 fillvalue = [[a, fillvalue]]"
  by (simp add: grouper.simps numeral_2_eq_2)

lemma grouper_empty: "grouper [] n fillvalue = []"
  by (simp add: grouper.simps)

lemma pairing_even:
  "even (length cells) \<Longrightarrow>
     \<exists>new. dict_comprehension (grouper (map Some cells) 2 None) acc = Inr new"
proof (induction cells arbitrary: acc rule: induct_list012)
  case 1
  then show ?case by (simp add: grouper_empty)
next
  case (2 x)
  then show ?case by simp
next
  case (3 x y zs)
  then show ?case by (simp add: grouper_pair text_of_def)
qed

lemma pairing_odd:
  "odd (length cells) \<Longrightarrow>
     dict_comprehension (grouper (map Some cells) 2 None) acc = Inl AttributeError"
proof (induction cells arbitrary: acc rule: induct_list012)
  case 1
  then show ?case by simp
next
  case (2 x)
  then show ?case by (simp add: grouper_single text_of_def)
next
  case (3 x y zs)
  then show ?case by (simp add: grouper_pair text_of_def)
qed

lemma pairing_pairs:
  "dict_comprehension (grouper (map Some (concat (map (\<lambda>(k, v). [k, v]) kvs))) 2 None) acc
     = Inr (fold (\<lambda>(k, v) m. m(el_text k \<mapsto> el_text v)) kvs acc)"
  by (induction kvs arbitrary: acc) (auto simp: grouper_pair grouper_empty text_of_def)

text \<open>
  Claim C2, run on the code. For the content cells \<open>A, 1, B, 2, C, 3\<close> the scraper
  returns the mapping of \<open>A\<close> to \<open>1\<close>, \<open>B\<close> to \<open>2\<close> and \<open>C\<close> to \<open>3\<close>. For the cells
  \<open>A, 1, B\<close> the grouping does fill the last pair with \<open>None\<close>, but the comprehension
  then reads the text of that \<open>None\<close>, and \<open>get_balance_data\<close> raises \<open>AttributeError\<close>
  instead of returning a mapping with a placeholder for \<open>B\<close>.
\<close>

theorem get_balance_data_pairs_cells:
  "get_balance_data (balance_page ''myNEU: View HuskyCard Balances''
       [''A'', ''1'', ''B'', ''2'', ''C'', ''3''])
     = Inr [''A'' \<mapsto> ''1'', ''B'' \<mapsto> ''2'', ''C'' \<mapsto> ''3''] \<and>
   grouper [Some ''A'', Some ''1'', Some ''B''] 2 None
     = [[Some ''A'', Some ''1''], [Some ''B'', None]] \<and>
   get_balance_data (balance_page ''myNEU: View HuskyCard Balances'' [''A'', ''1'', ''B''])
     = Inl AttributeError"
  by (simp add: get_balance_data_def balance_page_def page_defs grouper_pair grouper_single
        grouper_empty text_of_def)

text \<open>
  Claim C9. On a page whose title is not \<open>myNEU: View HuskyCard Balances\<close>,
  \<open>get_dining_dollars\<close> fails with the assertion error and its message. On a page with
  that title, when the scraper returns the mapping \<open>data\<close>, it returns what \<open>data\<close> holds
  under \<open>Spring 15 Meal Plan\<close>, which is \<open>None\<close>, returned and not raised, when the
  label is not a key of \<open>data\<close>.
\<close>

theorem get_dining_dollars_checks_page:
  "(title d \<noteq> ''myNEU: View HuskyCard Balances'' \<longrightarrow>
      get_dining_dollars d
        = Inl (AssertionError ''You need to be on the Husky Account Balance Page!'')) \<and>
   (title d = ''myNEU: View HuskyCard Balances'' \<and> get_balance_data d = Inr data \<longrightarrow>
      get_dining_dollars d = Inr (data ''Spring 15 Meal Plan'') \<and>
      (''Spring 15 Meal Plan'' \<notin> dom data \<longrightarrow> get_dining_dollars d = Inr None))"
  by (auto simp: get_dining_dollars_def)

theorem get_dining_dollars_checks_page_witness:
  "get_dining_dollars (balance_page ''myNEU Central'' [''Spring 15 Meal Plan'', ''42.00''])
     = Inl (AssertionError ''You need to be on the Husky Account Balance Page!'') \<and>
   get_dining_dollars (balance_page ''myNEU: View HuskyCard Balances''
       [''Spring 15 Meal Plan'', ''42.00'']) = Inr (Some ''42.00'') \<and>
   get_dining_dollars (balance_page ''myNEU: View HuskyCard Balances''
       [''Husky Dollars'', ''7.50'']) = Inr None"
proof -
  let ?wrong = "balance_page ''myNEU Central'' [''Spring 15 Meal Plan'', ''42.00'']"
  let ?plan = "balance_page ''myNEU: View HuskyCard Balances'' [''Spring 15 Meal Plan'', ''42.00'']"
  let ?other = "balance_page ''myNEU: View HuskyCard Balances'' [''Husky Dollars'', ''7.50'']"
  have w: "title ?wrong \<noteq> ''myNEU: View HuskyCard Balances''"
    by (simp add: balance_page_def)
  have p: "title ?plan = ''myNEU: View HuskyCard Balances'' \<and>
           get_balance_data ?plan = Inr [''Spring 15 Meal Plan'' \<mapsto> ''42.00'']"
    by (simp add: get_balance_data_def balance_page_def page_defs grouper_pair grouper_empty
          text_of_def)
  have o: "title ?other = ''myNEU: View HuskyCard Balances'' \<and>
           get_balance_data ?other = Inr [''Husky Dollars'' \<mapsto> ''7.50'']"
    by (simp add: get_balance_data_def balance_page_def page_defs grouper_pair grouper_empty
          text_of_def)
  have n: "''Spring 15 Meal Plan'' \<notin> dom [''Husky Dollars'' \<mapsto> ''7.50'']"
    by simp
  from get_dining_dollars_checks_page [of ?wrong] w
  have "get_dining_dollars ?wrong
          = Inl (AssertionError ''You need to be on the Husky Account Balance Page!'')"
    by blast
  moreover from get_dining_dollars_checks_page [of ?plan "[''Spring 15 Meal Plan'' \<mapsto> ''42.00'']"] p
  have "get_dining_dollars ?plan = Inr ([''Spring 15 Meal Plan'' \<mapsto> ''42.00''] ''Spring 15 Meal Plan'')"
    by blast
  moreover from get_dining_dollars_checks_page [of ?other "[''Husky Dollars'' \<mapsto> ''7.50'']"] o n
  have "get_dining_dollars ?other = Inr None"
    by blast
  ultimately show ?thesis by simp
qed

end
